theory Spec2Isabelle
  imports Main
begin

section \<open>JavaScript values\<close>

text \<open>
  The argument of \<^verbatim>\<open>convertJSONToHTML\<close> is typed \<^verbatim>\<open>any\<close>. It is modelled by the
  JSON-shaped values of JavaScript: the two nullish values, booleans, numbers, strings,
  arrays, and plain objects given by their own enumerable properties in enumeration order.
  A \<open>char\<close> stands for one UTF-16 code unit below 256.

  The functions never compute with a number: they test whether it is falsy and they print it.
  Printing is \<^verbatim>\<open>Number.prototype.toString\<close>, a builtin that is no part of the source, so
  a number is given by the string that this builtin yields for it: \<^verbatim>\<open>1.5\<close> is
  \<open>Number ''1.5''\<close>, \<^verbatim>\<open>1e21\<close> is \<open>Number ''1e+21''\<close>. That string determines the double,
  the sign of zero apart (both zeros print as \<^verbatim>\<open>0\<close>), which nothing here observes. Every
  double has its value of this type; a string that no double prints as stands for no input.
\<close>

datatype number = Number string

datatype json =
    JUndefined
  | JNull
  | JBool bool
  | JNum number
  | JStr string
  | JArr "json list"
  | JObj "(string \<times> json) list"

text \<open>The only exception these functions can raise on such values.\<close>

datatype error = TypeError

definition and_then :: "error + 'a \<Rightarrow> ('a \<Rightarrow> error + 'b) \<Rightarrow> error + 'b" where
  "and_then m f = (case m of Inl e \<Rightarrow> Inl e | Inr v \<Rightarrow> f v)"

text \<open>Evaluating a list of computations left to right; the first exception ends it.\<close>

fun sequence :: "(error + 'a) list \<Rightarrow> error + 'a list" where
  "sequence [] = Inr []"
| "sequence (m # ms) = and_then m (\<lambda>v. and_then (sequence ms) (\<lambda>vs. Inr (v # vs)))"

text \<open>\<^verbatim>\<open>n.toString()\<close>, and the conversion of a number by a template literal.\<close>

definition number_to_string :: "number \<Rightarrow> string" where
  "number_to_string n = (case n of Number printed \<Rightarrow> printed)"

text \<open>The numbers that print as \<^verbatim>\<open>0\<close> or as \<^verbatim>\<open>NaN\<close> are the two zeros and \<^verbatim>\<open>NaN\<close>:
  the falsy numbers.\<close>

definition zero_or_nan :: "number \<Rightarrow> bool" where
  "zero_or_nan n = (number_to_string n = ''0'' \<or> number_to_string n = ''NaN'')"

text \<open>\<^verbatim>\<open>!json\<close> is \<open>\<not> truthy json\<close>: the falsy values are \<^verbatim>\<open>undefined\<close>, \<^verbatim>\<open>null\<close>,
  \<^verbatim>\<open>false\<close>, \<^verbatim>\<open>0\<close>, \<^verbatim>\<open>NaN\<close> and the empty string.\<close>

fun truthy :: "json \<Rightarrow> bool" where
  "truthy JUndefined = False"
| "truthy JNull = False"
| "truthy (JBool b) = b"
| "truthy (JNum n) = (\<not> zero_or_nan n)"
| "truthy (JStr s) = (s \<noteq> [])"
| "truthy (JArr xs) = True"
| "truthy (JObj kvs) = True"

text \<open>Reading a property: \<^verbatim>\<open>json.k\<close> is \<^verbatim>\<open>undefined\<close> when the object has no such key.
  The keys of an object are distinct; of a list that repeats a key the first entry is read.\<close>

definition get :: "(string \<times> json) list \<Rightarrow> string \<Rightarrow> json" where
  "get kvs k = (case map_of kvs k of None \<Rightarrow> JUndefined | Some v \<Rightarrow> v)"

subsection \<open>Conversion to strings\<close>

definition bool_to_string :: "bool \<Rightarrow> string" where
  "bool_to_string b = (if b then ''true'' else ''false'')"

fun intercalate :: "string \<Rightarrow> string list \<Rightarrow> string" where
  "intercalate sep [] = []"
| "intercalate sep [x] = x"
| "intercalate sep (x # y # ys) = x @ sep @ intercalate sep (y # ys)"

text \<open>
  The abstract operation ToString, applied by template literals and by \<^verbatim>\<open>Array.join\<close>.
  An array prints its elements separated by commas, a nullish element as nothing. A plain
  object prints as \<^verbatim>\<open>[object Object]\<close> through the inherited \<^verbatim>\<open>toString\<close>; an own
  property of that name shadows it, and since no JSON value is callable the conversion then
  raises a TypeError.
\<close>

fun to_string :: "json \<Rightarrow> error + string" where
  "to_string JUndefined = Inr ''undefined''"
| "to_string JNull = Inr ''null''"
| "to_string (JBool b) = Inr (bool_to_string b)"
| "to_string (JNum n) = Inr (number_to_string n)"
| "to_string (JStr s) = Inr s"
| "to_string (JArr xs) =
     and_then
       (sequence (map (\<lambda>x. if x = JUndefined \<or> x = JNull then Inr [] else to_string x) xs))
       (\<lambda>ss. Inr (intercalate '','' ss))"
| "to_string (JObj kvs) =
     (if ''toString'' \<in> fst ` set kvs then Inl TypeError else Inr ''[object Object]'')"

text \<open>\<^verbatim>\<open>xs.join(sep)\<close> on an array of values.\<close>

definition join :: "string \<Rightarrow> json list \<Rightarrow> error + json" where
  "join sep xs =
     and_then
       (sequence (map (\<lambda>x. if x = JUndefined \<or> x = JNull then Inr [] else to_string x) xs))
       (\<lambda>ss. Inr (JStr (intercalate sep ss)))"

text \<open>A template literal with one substitution: \<^verbatim>\<open>`pre${v}post`\<close>.\<close>

definition template :: "string \<Rightarrow> json \<Rightarrow> string \<Rightarrow> error + json" where
  "template pre v post = and_then (to_string v) (\<lambda>s. Inr (JStr (pre @ s @ post)))"

text \<open>\<^verbatim>\<open>s.split(c)\<close> for a one-character separator: the pieces between its occurrences.\<close>

fun split_char :: "char \<Rightarrow> string \<Rightarrow> string list" where
  "split_char c [] = [[]]"
| "split_char c (x # xs) =
     (if x = c then [] # split_char c xs
      else (case split_char c xs of
              [] \<Rightarrow> [[x]]
            | p # ps \<Rightarrow> (x # p) # ps))"

text \<open>Indexing an array of strings: \<^verbatim>\<open>undefined\<close> beyond its end.\<close>

definition at_index :: "string list \<Rightarrow> nat \<Rightarrow> json" where
  "at_index xs i = (if i < length xs then JStr (xs ! i) else JUndefined)"

text \<open>
  \<^verbatim>\<open>json.type?.startsWith('heading-')\<close>: the optional chain yields \<^verbatim>\<open>undefined\<close> (falsy)
  for a nullish type, a string answers by its prefix, and any other value has no
  \<^verbatim>\<open>startsWith\<close> method, so that the call raises a TypeError.
\<close>

definition starts_with :: "string \<Rightarrow> string \<Rightarrow> bool" where
  "starts_with s p = (take (length p) s = p)"

definition type_starts_with_heading :: "json \<Rightarrow> error + bool" where
  "type_starts_with_heading ty =
     (case ty of
        JUndefined \<Rightarrow> Inr False
      | JNull \<Rightarrow> Inr False
      | JStr t \<Rightarrow> Inr (starts_with t ''heading-'')
      | _ \<Rightarrow> Inl TypeError)"

section \<open>convertJSONToHTML\<close>

text \<open>
  The renderer of \<^verbatim>\<open>apps/mail/lib/utils.ts\<close>, branch by branch in the order of the source.
  Its result is a value and not always a string: a text node without a truthy flag returns
  its \<^verbatim>\<open>text\<close> field as it is. Every template literal and every \<^verbatim>\<open>join\<close> converts what it
  is given with \<open>to_string\<close>, and the call of \<^verbatim>\<open>startsWith\<close> on the type can raise; these
  are the only places where an exception arises on the values modelled. The lemmas on sizes
  are for the termination proof: a property value is smaller than the object that holds it.
\<close>

lemma size_entry:
  "(k, v) \<in> set kvs \<Longrightarrow> size v < Suc (size_list (size_prod (\<lambda>_. 0) size) kvs)"
  by (induction kvs) auto

lemma size_value:
  "v \<in> snd ` set kvs \<Longrightarrow> size v < Suc (size_list (size_prod (\<lambda>_. 0) size) kvs)"
  by (auto simp: size_entry)

lemma size_get: "size (get kvs k) < Suc (size_list (size_prod (\<lambda>_. 0) size) kvs)"
proof (cases "map_of kvs k")
  case None
  then show ?thesis by (simp add: get_def)
next
  case (Some v)
  then have "(k, v) \<in> set kvs" by (rule map_of_SomeD)
  with Some show ?thesis by (simp add: get_def size_entry)
qed

lemma size_item: "x \<in> set xs \<Longrightarrow> size x < Suc (size_list size xs)"
  by (induction xs) auto

function convertJSONToHTML :: "json \<Rightarrow> error + json" where
  "convertJSONToHTML json =
    (if \<not> truthy json then Inr (JStr [])
     else case json of
       JStr s \<Rightarrow> Inr json
     | JNum n \<Rightarrow> Inr (JStr (number_to_string n))
     | JBool b \<Rightarrow> Inr (JStr (bool_to_string b))
     | JNull \<Rightarrow> Inr (JStr [])
     | JArr items \<Rightarrow> and_then (sequence (map convertJSONToHTML items)) (join [])
     | JObj kvs \<Rightarrow>
        (if get kvs ''type'' = JStr ''text'' then
           (let text = (if truthy (get kvs ''text'') then get kvs ''text'' else JStr [])
            in and_then
                 (if truthy (get kvs ''bold'') then template ''<strong>'' text ''</strong>''
                  else Inr text) (\<lambda>text.
               and_then
                 (if truthy (get kvs ''italic'') then template ''<em>'' text ''</em>''
                  else Inr text) (\<lambda>text.
               and_then
                 (if truthy (get kvs ''underline'') then template ''<u>'' text ''</u>''
                  else Inr text) (\<lambda>text.
               and_then
                 (if truthy (get kvs ''code'') then template ''<code>'' text ''</code>''
                  else Inr text) (\<lambda>text.
               Inr text)))))
         else if get kvs ''type'' = JStr ''paragraph'' then
           and_then (convertJSONToHTML (get kvs ''children'')) (\<lambda>c. template ''<p>'' c ''</p>'')
         else
           and_then (type_starts_with_heading (get kvs ''type'')) (\<lambda>heading.
           if heading then
             (let level = at_index (split_char CHR ''-'' (case get kvs ''type'' of JStr t \<Rightarrow> t | _ \<Rightarrow> [])) 1
              in and_then (to_string level) (\<lambda>l.
                 and_then (convertJSONToHTML (get kvs ''children'')) (\<lambda>c.
                 template (''<h'' @ l @ ''>'') c (''</h'' @ l @ ''>''))))
           else if get kvs ''type'' = JStr ''bulleted-list'' then
             and_then (convertJSONToHTML (get kvs ''children'')) (\<lambda>c. template ''<ul>'' c ''</ul>'')
           else if get kvs ''type'' = JStr ''numbered-list'' then
             and_then (convertJSONToHTML (get kvs ''children'')) (\<lambda>c. template ''<ol>'' c ''</ol>'')
           else if get kvs ''type'' = JStr ''list-item'' then
             and_then (convertJSONToHTML (get kvs ''children'')) (\<lambda>c. template ''<li>'' c ''</li>'')
           else if get kvs ''type'' = JStr ''link'' then
             and_then (to_string (get kvs ''url'')) (\<lambda>url.
             and_then (convertJSONToHTML (get kvs ''children'')) (\<lambda>c.
             template (''<a href='' @ [CHR 0x22] @ url @ [CHR 0x22] @ ''>'') c ''</a>''))
           else if get kvs ''type'' = JStr ''image'' then
             and_then (to_string (get kvs ''url'')) (\<lambda>url.
             template (''<img src='' @ [CHR 0x22] @ url @ [CHR 0x22] @ '' alt='' @ [CHR 0x22])
               (if truthy (get kvs ''alt'') then get kvs ''alt'' else JStr [])
               ([CHR 0x22] @ '' />''))
           else if get kvs ''type'' = JStr ''block-quote'' then
             and_then (convertJSONToHTML (get kvs ''children''))
               (\<lambda>c. template ''<blockquote>'' c ''</blockquote>'')
           else if get kvs ''type'' = JStr ''code-block'' then
             and_then (convertJSONToHTML (get kvs ''children''))
               (\<lambda>c. template ''<pre><code>'' c ''</code></pre>'')
           else if truthy (get kvs ''children'') then
             convertJSONToHTML (get kvs ''children'')
           else
             and_then (sequence (map convertJSONToHTML (map snd kvs))) (join [])))
     | JUndefined \<Rightarrow> Inr (JStr []))"
  by pat_completeness auto
termination
  by (relation "measure size") (auto simp: size_get size_value size_item)

declare convertJSONToHTML.simps [simp del]

section \<open>Regular expressions\<close>

text \<open>
  The three regular expression literals of \<^verbatim>\<open>createAIJsonContent\<close> are written as terms of a
  small syntax of patterns and run by a backtracking matcher that follows the order of
  choices of the ECMAScript semantics: alternatives left to right, quantifiers greedy, an
  iteration of a quantifier with minimum zero that consumes nothing rejected.
\<close>

definition nl :: char where
  "nl = CHR 0x0A"

text \<open>White space and line terminators (\<^verbatim>\<open>\s\<close>, and what \<^verbatim>\<open>trim\<close> removes), among the
  code units below 256.\<close>

definition is_space :: "char \<Rightarrow> bool" where
  "is_space c = (c \<in> set [CHR 0x09, CHR 0x0A, CHR 0x0B, CHR 0x0C, CHR 0x0D, CHR 0x20, CHR 0xA0])"

definition in_range :: "char \<Rightarrow> char \<Rightarrow> char \<Rightarrow> bool" where
  "in_range lo hi c = ((of_char lo :: nat) \<le> of_char c \<and> (of_char c :: nat) \<le> of_char hi)"

text \<open>The word characters of \<^verbatim>\<open>\b\<close>.\<close>

definition is_word :: "char \<Rightarrow> bool" where
  "is_word c =
     (in_range CHR ''a'' CHR ''z'' c \<or> in_range CHR ''A'' CHR ''Z'' c
      \<or> in_range CHR ''0'' CHR ''9'' c \<or> c = CHR ''_'')"

text \<open>
  Canonicalize, under the flag \<^verbatim>\<open>i\<close> without \<^verbatim>\<open>u\<close>: the upper-case form of a letter.
  Only the ASCII letters are mapped here; a code unit of 128 or more never canonicalizes to
  an ASCII one, so this decides every comparison with the ASCII characters of the patterns.
\<close>

definition canonicalize :: "char \<Rightarrow> char" where
  "canonicalize c =
     (case map_of (zip ''abcdefghijklmnopqrstuvwxyz'' ''ABCDEFGHIJKLMNOPQRSTUVWXYZ'') c of
        None \<Rightarrow> c
      | Some u \<Rightarrow> u)"

definition lower_form :: "char \<Rightarrow> char" where
  "lower_form c =
     (case map_of (zip ''ABCDEFGHIJKLMNOPQRSTUVWXYZ'' ''abcdefghijklmnopqrstuvwxyz'') c of
        None \<Rightarrow> c
      | Some l \<Rightarrow> l)"

datatype atom =
    Lit char
  | Between char char
  | Space

datatype rx =
    EmptyRx
  | Chr "atom list"
  | WordBoundary
  | EndAnchor
  | Cat rx rx
  | Alt rx rx
  | Opt rx
  | Star rx

text \<open>\<^verbatim>\<open>r+\<close> is one mandatory iteration followed by \<^verbatim>\<open>r*\<close>.\<close>

definition one_or_more :: "rx \<Rightarrow> rx" where
  "one_or_more r = Cat r (Star r)"

fun seq :: "rx list \<Rightarrow> rx" where
  "seq [] = EmptyRx"
| "seq [r] = r"
| "seq (r # rs) = Cat r (seq rs)"

fun alts :: "rx list \<Rightarrow> rx" where
  "alts [] = EmptyRx"
| "alts [r] = r"
| "alts (r # rs) = Alt r (alts rs)"

definition word :: "string \<Rightarrow> rx" where
  "word s = seq (map (\<lambda>c. Chr [Lit c]) s)"

text \<open>
  Whether a character is in the set an atom denotes. With \<open>ic\<close> (the flag \<^verbatim>\<open>i\<close>) a
  character matches when some member of the set has its canonical form: the members with
  the canonical form \<open>c'\<close> are \<open>c'\<close> itself and its lower-case form.
\<close>

fun atom_matches :: "bool \<Rightarrow> atom \<Rightarrow> char \<Rightarrow> bool" where
  "atom_matches ic (Lit a) c = (if ic then canonicalize a = canonicalize c else a = c)"
| "atom_matches ic (Between lo hi) c =
     (if ic then in_range lo hi (canonicalize c) \<or> in_range lo hi (lower_form (canonicalize c))
      else in_range lo hi c)"
| "atom_matches ic Space c = is_space c"

text \<open>
  A position in the input: the characters before it, last first, and those from it on.
  \<open>rmatch ic r pos\<close> lists the positions at which a match of \<open>r\<close> starting at \<open>pos\<close> can
  end, in the order in which backtracking reaches them; the first one is the match found.
\<close>

type_synonym pos = "string \<times> string"

function rmatch :: "bool \<Rightarrow> rx \<Rightarrow> pos \<Rightarrow> pos list" where
  "rmatch ic EmptyRx st = [st]"
| "rmatch ic (Chr as) st =
     (case snd st of
        [] \<Rightarrow> []
      | c # cs \<Rightarrow> if list_ex (\<lambda>a. atom_matches ic a c) as then [(c # fst st, cs)] else [])"
| "rmatch ic WordBoundary st =
     (let a = (case fst st of [] \<Rightarrow> False | c # _ \<Rightarrow> is_word c);
          b = (case snd st of [] \<Rightarrow> False | c # _ \<Rightarrow> is_word c)
      in if a \<noteq> b then [st] else [])"
| "rmatch ic EndAnchor st = (if snd st = [] then [st] else [])"
| "rmatch ic (Cat r1 r2) st = concat (map (rmatch ic r2) (rmatch ic r1 st))"
| "rmatch ic (Alt r1 r2) st = rmatch ic r1 st @ rmatch ic r2 st"
| "rmatch ic (Opt r) st =
     filter (\<lambda>st'. length (snd st') < length (snd st)) (rmatch ic r st) @ [st]"
| "rmatch ic (Star r) st =
     concat (map (rmatch ic (Star r))
               (filter (\<lambda>st'. length (snd st') < length (snd st)) (rmatch ic r st)))
     @ [st]"
  by pat_completeness auto
termination
  by (relation "inv_image (measure size <*lex*> measure length) (\<lambda>(ic, r, st). (r, snd st))")
    auto

declare rmatch.simps(8) [simp del]

text \<open>A match consumes input: it never moves backwards and never leaves the text.\<close>

lemma rmatch_advances:
  "st' \<in> set (rmatch ic r st) \<Longrightarrow>
     length (snd st') \<le> length (snd st)
     \<and> length (fst st') + length (snd st') = length (fst st) + length (snd st)"
proof (induction ic r st arbitrary: st' rule: rmatch.induct)
  case (1 ic st)
  then show ?case by simp
next
  case (2 ic as st)
  show ?case
  proof (cases "snd st")
    case Nil
    with "2.prems" show ?thesis by simp
  next
    case (Cons c cs)
    with "2.prems" have "st' = (c # fst st, cs)" by (simp split: if_splits)
    with Cons show ?thesis by simp
  qed
next
  case (3 ic st)
  from "3.prems" have "st' = st" by (simp add: Let_def split: if_splits)
  then show ?case by simp
next
  case (4 ic st)
  from "4.prems" have "st' = st" by (simp split: if_splits)
  then show ?case by simp
next
  case (5 ic r1 r2 st)
  from "5.prems" obtain m where m: "m \<in> set (rmatch ic r1 st)" and s: "st' \<in> set (rmatch ic r2 m)"
    by auto
  from "5.IH"(1)[OF m] "5.IH"(2)[OF m s] show ?case by linarith
next
  case (6 ic r1 r2 st)
  from "6.prems" have "st' \<in> set (rmatch ic r1 st) \<or> st' \<in> set (rmatch ic r2 st)" by simp
  then show ?case using "6.IH" by blast
next
  case (7 ic r st)
  from "7.prems" have "st' \<in> set (rmatch ic r st) \<or> st' = st" by auto
  then show ?case using "7.IH" by blast
next
  case (8 ic r st)
  from "8.prems" have "st' = st \<or> (\<exists>m. m \<in> set (rmatch ic r st) \<and> length (snd m) < length (snd st) \<and> st' \<in> set (rmatch ic (Star r) m))"
    by (auto simp: rmatch.simps(8)[of ic r st])
  then show ?case
  proof 
    assume "st' = st"
    then show ?thesis by simp
  next
    assume "\<exists>m. m \<in> set (rmatch ic r st) \<and> length (snd m) < length (snd st) \<and> st' \<in> set (rmatch ic (Star r) m)"
    then obtain m where 2: "m \<in> set (rmatch ic r st)" "length (snd m) < length (snd st)" "st' \<in> set (rmatch ic (Star r) m)" by blast
    have a: "m \<in> set (filter (\<lambda>st'. length (snd st') < length (snd st)) (rmatch ic r st))"
      using 2(1,2) by simp
    from "8.IH"(1)[OF 2(1)] "8.IH"(2)[OF a 2(3)] show ?thesis by linarith
  qed
qed

text \<open>
  \<^verbatim>\<open>text.match(pattern)\<close> for a pattern without the flag \<^verbatim>\<open>g\<close>: the first index from which
  the pattern matches, with the matched substring (\<^verbatim>\<open>match[0]\<close>).
\<close>

fun exec_from :: "bool \<Rightarrow> rx \<Rightarrow> string \<Rightarrow> string \<Rightarrow> (nat \<times> string) option" where
  "exec_from ic r pre [] =
     (case rmatch ic r (pre, []) of
        [] \<Rightarrow> None
      | st # _ \<Rightarrow> Some (length pre, []))"
| "exec_from ic r pre (c # cs) =
     (case rmatch ic r (pre, c # cs) of
        [] \<Rightarrow> exec_from ic r (c # pre) cs
      | st # _ \<Rightarrow> Some (length pre, take (length (c # cs) - length (snd st)) (c # cs)))"

definition regex_match :: "bool \<Rightarrow> rx \<Rightarrow> string \<Rightarrow> (nat \<times> string) option" where
  "regex_match ic r text = exec_from ic r [] text"


subsection \<open>Splitting a string by a pattern\<close>

definition substring :: "string \<Rightarrow> nat \<Rightarrow> nat \<Rightarrow> string" where
  "substring s a b = take (b - a) (drop a s)"

text \<open>The match of a pattern that starts exactly at index \<open>q\<close>, if any: its end index.\<close>

definition match_at :: "rx \<Rightarrow> string \<Rightarrow> nat \<Rightarrow> nat option" where
  "match_at r s q =
     (case rmatch False r (rev (take q s), drop q s) of
        [] \<Rightarrow> None
      | st # _ \<Rightarrow> Some (length (fst st)))"

lemma match_at_ge: "match_at r s q = Some e \<Longrightarrow> q \<le> length s \<Longrightarrow> q \<le> e"
proof -
  assume m: "match_at r s q = Some e" and q: "q \<le> length s"
  then obtain st sts where r: "rmatch False r (rev (take q s), drop q s) = st # sts"
    and e: "e = length (fst st)"
    by (auto simp: match_at_def split: list.splits)
  then have "st \<in> set (rmatch False r (rev (take q s), drop q s))" by simp
  from rmatch_advances[OF this] q e show ?thesis by simp linarith
qed

text \<open>
  \<^verbatim>\<open>s.split(r)\<close> for a pattern \<open>r\<close> without capturing groups: \<open>p\<close> is where the current
  piece starts and \<open>q\<close> where a separator is looked for next; a separator that would end at
  \<open>p\<close> is skipped.
\<close>

function split_loop :: "rx \<Rightarrow> string \<Rightarrow> nat \<Rightarrow> nat \<Rightarrow> string list" where
  "split_loop r s p q =
     (if q < length s then
        (case match_at r s q of
           None \<Rightarrow> split_loop r s p (Suc q)
         | Some e' \<Rightarrow>
            (let e = min e' (length s)
             in if e = p then split_loop r s p (Suc q)
                else substring s p q # split_loop r s e e))
      else [substring s p (length s)])"
  by pat_completeness auto
termination
proof (relation "measure (\<lambda>(r, s, p, q). 2 * (length s - q) + (if p = q then 0 else 1))",
    goal_cases)
  case 1
  show ?case by simp
next
  case (2 r s p q)
  then show ?case by auto
next
  case (3 r s p q e' e)
  then show ?case by auto
next
  case (4 r s p q e' e)
  from 4 have "q \<le> e'" by (auto dest: match_at_ge)
  with 4 show ?case by (auto simp: min_def split: if_splits)
qed

declare split_loop.simps [simp del]

definition js_split :: "rx \<Rightarrow> string \<Rightarrow> string list" where
  "js_split r s =
     (if s = [] then (case match_at r s 0 of None \<Rightarrow> [s] | Some e \<Rightarrow> [])
      else split_loop r s 0 0)"

subsection \<open>Other string and array methods\<close>

definition trim :: "string \<Rightarrow> string" where
  "trim s = rev (dropWhile is_space (rev (dropWhile is_space s)))"

definition ends_with :: "string \<Rightarrow> string \<Rightarrow> bool" where
  "ends_with s suffix =
     (length suffix \<le> length s \<and> drop (length s - length suffix) s = suffix)"

text \<open>\<^verbatim>\<open>s.lastIndexOf(m)\<close>: the largest index at which \<open>m\<close> occurs in \<open>s\<close>, or \<open>-1\<close>.\<close>

definition lastIndexOf :: "string \<Rightarrow> string \<Rightarrow> int" where
  "lastIndexOf s m =
     (case filter (\<lambda>k. take (length m) (drop k s) = m) (rev [0 ..< Suc (length s - length m)]) of
        [] \<Rightarrow> - 1
      | k # _ \<Rightarrow> int k)"

text \<open>\<^verbatim>\<open>xs.slice(-n)\<close>: the last \<open>n\<close> elements, or all of them when there are fewer.\<close>

definition slice_last :: "nat \<Rightarrow> 'a list \<Rightarrow> 'a list" where
  "slice_last n xs = drop (length xs - n) xs"


section \<open>createAIJsonContent\<close>

text \<open>
  The sign-off pattern, with the flag \<^verbatim>\<open>i\<close>:
  \<^verbatim>\<open>\b((?:Best regards|Regards|Sincerely|Thanks|Thank you|Cheers|Best|All the best|Yours truly|Yours sincerely|Kind regards|Cordially)(?:,)?)\s*\n+\s*([A-Za-z][A-Za-z\s.]*)$\<close>
\<close>

definition signOffPatterns :: "rx list" where
  "signOffPatterns =
     [seq [WordBoundary,
           seq [alts (map word
                  [''Best regards'', ''Regards'', ''Sincerely'', ''Thanks'', ''Thank you'',
                   ''Cheers'', ''Best'', ''All the best'', ''Yours truly'', ''Yours sincerely'',
                   ''Kind regards'', ''Cordially'']),
                Opt (Chr [Lit CHR '',''])],
           Star (Chr [Space]),
           one_or_more (Chr [Lit nl]),
           Star (Chr [Space]),
           seq [Chr [Between CHR ''A'' CHR ''Z'', Between CHR ''a'' CHR ''z''],
                Star (Chr [Between CHR ''A'' CHR ''Z'', Between CHR ''a'' CHR ''z'', Space,
                           Lit CHR ''.''])],
           EndAnchor]]"

text \<open>\<^verbatim>\<open>/\n+/\<close> and \<^verbatim>\<open>/\n\s*\n/\<close>.\<close>

definition newlines :: rx where
  "newlines = one_or_more (Chr [Lit nl])"

definition blank_line :: rx where
  "blank_line = seq [Chr [Lit nl], Star (Chr [Space]), Chr [Lit nl]]"

text \<open>
  The loop over the sign-off patterns. Its state is the pair of the variables
  \<^verbatim>\<open>mainContent\<close> and \<^verbatim>\<open>signatureLines\<close>; a match at an index above zero sets both and
  leaves the loop.
\<close>

fun sign_off_loop :: "rx list \<Rightarrow> string \<Rightarrow> string \<times> string list \<Rightarrow> string \<times> string list" where
  "sign_off_loop [] text vars = vars"
| "sign_off_loop (pattern # patterns) text vars =
     (case regex_match True pattern text of
        None \<Rightarrow> sign_off_loop patterns text vars
      | Some match \<Rightarrow>
         (let signOffIndex = lastIndexOf text (snd match)
          in if signOffIndex > 0 then
               (let mainContent = trim (substring text 0 (nat signOffIndex));
                    signature = trim (drop (nat signOffIndex) text);
                    signatureLines = filter (\<lambda>line. line \<noteq> []) (map trim (js_split newlines signature))
                in (mainContent, signatureLines))
             else sign_off_loop patterns text vars))"

text \<open>The test of the fallback pass on one of the last lines.\<close>

definition short_line :: "string \<Rightarrow> bool" where
  "short_line line =
     (length (trim line) < 60 \<and> \<not> ends_with (trim line) ''?'' \<and> \<not> ends_with (trim line) ''.'')"

definition fallback :: "string \<Rightarrow> string \<times> string list \<Rightarrow> string \<times> string list" where
  "fallback text vars =
     (if length (snd vars) = 0 then
        (let allLines = js_split newlines text
         in if length allLines > 1 then
              (let potentialSigLines = filter short_line (slice_last 3 allLines)
               in if length potentialSigLines > 0 then
                    (trim (intercalate [nl]
                             (take (length allLines - length potentialSigLines) allLines)),
                     potentialSigLines)
                  else vars)
            else vars)
      else vars)"

text \<open>The two passes together: the values of \<^verbatim>\<open>mainContent\<close> and \<^verbatim>\<open>signatureLines\<close>
  when the paragraphs are split.\<close>

definition split_signature :: "string \<Rightarrow> string \<times> string list" where
  "split_signature text = fallback text (sign_off_loop signOffPatterns text (text, []))"

definition split_paragraphs :: "string \<Rightarrow> string list" where
  "split_paragraphs mainContent =
     filter (\<lambda>p. p \<noteq> []) (map trim (js_split blank_line mainContent))"

definition paragraph_node :: "string \<Rightarrow> json" where
  "paragraph_node t =
     JObj [(''type'', JStr ''paragraph''),
           (''content'', JArr [JObj [(''type'', JStr ''text''), (''text'', JStr t)]])]"

definition empty_paragraph :: json where
  "empty_paragraph = JObj [(''type'', JStr ''paragraph'')]"

text \<open>The array \<^verbatim>\<open>content\<close> built from the paragraphs and the signature lines.\<close>

definition build_content :: "string list \<Rightarrow> string list \<Rightarrow> json list" where
  "build_content paragraphs signatureLines =
     concat (map (\<lambda>(index, paragraph).
                    paragraph_node paragraph
                    # (if int index < int (length paragraphs) - 1 then [empty_paragraph] else []))
                 (enumerate 0 paragraphs))
     @ (if length signatureLines > 0 then
          (if length paragraphs > 0 then [empty_paragraph] else [])
          @ map paragraph_node signatureLines
        else [])"

definition createAIJsonContent :: "string \<Rightarrow> json" where
  "createAIJsonContent text =
     (let (mainContent, signatureLines) = split_signature text;
          paragraphs = split_paragraphs mainContent;
          paragraphs = (if length paragraphs = 0 \<and> length signatureLines = 0
                        then paragraphs @ [text] else paragraphs);
          content = build_content paragraphs signatureLines
      in JObj [(''type'', JStr ''doc''), (''content'', JArr content)])"

section \<open>Notions used to state the properties\<close>

text \<open>An element \<^verbatim>\<open><tag>s</tag>\<close> around \<open>s\<close> when the flag is on, \<open>s\<close> itself otherwise.\<close>

definition tagged :: "bool \<Rightarrow> string \<Rightarrow> string \<Rightarrow> string" where
  "tagged on tag s = (if on then ''<'' @ tag @ ''>'' @ s @ ''</'' @ tag @ ''>'' else s)"

text \<open>The node types that \<^verbatim>\<open>convertJSONToHTML\<close> has a branch for.\<close>

definition recognized :: "string \<Rightarrow> bool" where
  "recognized t =
     (t \<in> set [''text'', ''paragraph'', ''bulleted-list'', ''numbered-list'', ''list-item'',
               ''link'', ''image'', ''block-quote'', ''code-block'']
      \<or> starts_with t ''heading-'')"

text \<open>A \<^verbatim>\<open>type\<close> field that is absent, null, or a string naming no recognized node type.\<close>

definition unrecognized_type :: "json \<Rightarrow> bool" where
  "unrecognized_type ty =
     (case ty of
        JUndefined \<Rightarrow> True
      | JNull \<Rightarrow> True
      | JStr t \<Rightarrow> \<not> recognized t
      | _ \<Rightarrow> False)"

text \<open>The document that holds one paragraph with one text node.\<close>

definition single_paragraph_doc :: "string \<Rightarrow> json" where
  "single_paragraph_doc t =
     JObj [(''type'', JStr ''doc''),
           (''content'',
            JArr [JObj [(''type'', JStr ''paragraph''),
                        (''content'', JArr [JObj [(''type'', JStr ''text''), (''text'', JStr t)]])]])]"

text \<open>The number of nodes in the \<^verbatim>\<open>content\<close> array of a document.\<close>

definition node_count :: "json \<Rightarrow> nat" where
  "node_count doc =
     (case doc of
        JObj kvs \<Rightarrow> (case get kvs ''content'' of JArr nodes \<Rightarrow> length nodes | _ \<Rightarrow> 0)
      | _ \<Rightarrow> 0)"

text \<open>A string that is nothing but a run of \<^verbatim>\<open><p></p>\<close>.\<close>

definition only_empty_paragraphs :: "string \<Rightarrow> bool" where
  "only_empty_paragraphs h =
     list_ex (\<lambda>n. h = concat (replicate n ''<p></p>'')) [0 ..< Suc (length h)]"

text \<open>
  Balanced tags: the string is read from left to right, what stands between \<^verbatim>\<open><\<close> and
  \<^verbatim>\<open>>\<close> is a tag, an opening tag of the renderer's tag set is pushed on a stack, a
  closing tag must close the tag on top of it, \<^verbatim>\<open><img ... />\<close> closes itself, and at
  the end no tag is left open.
\<close>

datatype scan_state = InText | InTag string

definition tag_name :: "string \<Rightarrow> string" where
  "tag_name body = takeWhile (\<lambda>c. c \<noteq> CHR '' '') body"

definition known_tag :: "string \<Rightarrow> bool" where
  "known_tag name =
     (name \<in> set [''strong'', ''em'', ''u'', ''code'', ''p'', ''ul'', ''ol'', ''li'', ''a'',
                  ''blockquote'', ''pre'']
      \<or> starts_with name ''h'')"

definition tag_step :: "string \<Rightarrow> string list \<Rightarrow> string list option" where
  "tag_step body stack =
     (if starts_with body ''/'' then
        (case stack of
           [] \<Rightarrow> None
         | opened # rest \<Rightarrow> if drop 1 body = opened then Some rest else None)
      else if ends_with body ''/'' then
        (if tag_name body = ''img'' then Some stack else None)
      else if known_tag (tag_name body) then Some (tag_name body # stack)
      else None)"

fun scan :: "string list \<Rightarrow> scan_state \<Rightarrow> string \<Rightarrow> bool" where
  "scan stack InText [] = (stack = [])"
| "scan stack (InTag body) [] = False"
| "scan stack InText (c # cs) =
     (if c = CHR ''<'' then scan stack (InTag []) cs else scan stack InText cs)"
| "scan stack (InTag body) (c # cs) =
     (if c = CHR ''>'' then
        (case tag_step (rev body) stack of
           None \<Rightarrow> False
         | Some stack' \<Rightarrow> scan stack' InText cs)
      else scan stack (InTag (c # body)) cs)"

definition balanced_tags :: "string \<Rightarrow> bool" where
  "balanced_tags h = scan [] InText h"

definition well_formed_html :: "error + json \<Rightarrow> bool" where
  "well_formed_html result =
     (case result of
        Inr (JStr h) \<Rightarrow> balanced_tags h
      | _ \<Rightarrow> False)"

text \<open>
  Values on which no conversion can fail: in every object, at any depth, the \<^verbatim>\<open>type\<close> is a
  string or nullish and no own property is named \<^verbatim>\<open>toString\<close>.
\<close>

definition string_or_nullish :: "json \<Rightarrow> bool" where
  "string_or_nullish ty =
     (case ty of JUndefined \<Rightarrow> True | JNull \<Rightarrow> True | JStr t \<Rightarrow> True | _ \<Rightarrow> False)"

fun plain :: "json \<Rightarrow> bool" where
  "plain (JArr xs) = list_all plain xs"
| "plain (JObj kvs) =
     (''toString'' \<notin> fst ` set kvs \<and> string_or_nullish (get kvs ''type'')
      \<and> list_all plain (map snd kvs))"
| "plain v = True"

text \<open>A result that is no exception and is again such a value.\<close>

definition returns_plain :: "error + json \<Rightarrow> bool" where
  "returns_plain r = (case r of Inl e \<Rightarrow> False | Inr w \<Rightarrow> plain w)"

section \<open>Properties of convertJSONToHTML\<close>

lemma render_falsy: "\<not> truthy j \<Longrightarrow> convertJSONToHTML j = Inr (JStr [])"
  by (subst convertJSONToHTML.simps) simp

lemma render_JStr: "convertJSONToHTML (JStr s) = Inr (JStr s)"
  by (subst convertJSONToHTML.simps) simp

lemma render_JArr:
  "convertJSONToHTML (JArr items) = and_then (sequence (map convertJSONToHTML items)) (join [])"
  by (subst convertJSONToHTML.simps) simp

text \<open>
  C5, as the code has it: every number other than \<^verbatim>\<open>0\<close>, \<^verbatim>\<open>-0\<close> and \<^verbatim>\<open>NaN\<close> is
  rendered as its string representation, the string that \<^verbatim>\<open>toString\<close> yields for it, and
  \<^verbatim>\<open>true\<close> as \<^verbatim>\<open>"true"\<close>, while the zeros, \<^verbatim>\<open>NaN\<close> and \<^verbatim>\<open>false\<close> are falsy and
  are rendered as the empty string by the first line of the function.
\<close>

theorem number_boolean_rendering:
  "convertJSONToHTML (JNum n) =
     Inr (JStr (if zero_or_nan n then [] else number_to_string n))
   \<and> convertJSONToHTML (JBool b) = Inr (JStr (if b then ''true'' else []))"
  by (simp add: convertJSONToHTML.simps[of "JNum n"] convertJSONToHTML.simps[of "JBool b"]
      bool_to_string_def)

text \<open>C5 as stated fails: the number \<^verbatim>\<open>0\<close> has the string representation \<^verbatim>\<open>"0"\<close> and
  \<^verbatim>\<open>false\<close> has \<^verbatim>\<open>"false"\<close>, and neither is what is rendered for them.\<close>

theorem zero_false_counterexample:
  "number_to_string (Number ''0'') = ''0''
   \<and> convertJSONToHTML (JNum (Number ''0'')) \<noteq> Inr (JStr ''0'')
   \<and> bool_to_string False = ''false''
   \<and> convertJSONToHTML (JBool False) \<noteq> Inr (JStr ''false'')"
  by (simp add: render_falsy zero_or_nan_def number_to_string_def bool_to_string_def)

text \<open>
  C1, as the code has it: a text node whose \<^verbatim>\<open>text\<close> is a string (or is missing or falsy,
  which counts as the empty string) is wrapped in \<^verbatim>\<open>strong\<close>, \<^verbatim>\<open>em\<close>, \<^verbatim>\<open>u\<close>,
  \<^verbatim>\<open>code\<close>, one element for each truthy flag among bold, italic, underline, code, applied
  in that order: bold is the innermost element and code the outermost.
\<close>

theorem text_node_nesting:
  assumes "get kvs ''type'' = JStr ''text''"
    and "get kvs ''text'' = JStr t \<or> (\<not> truthy (get kvs ''text'') \<and> t = [])"
  shows "convertJSONToHTML (JObj kvs) =
     Inr (JStr (tagged (truthy (get kvs ''code'')) ''code''
               (tagged (truthy (get kvs ''underline'')) ''u''
               (tagged (truthy (get kvs ''italic'')) ''em''
               (tagged (truthy (get kvs ''bold'')) ''strong'' t)))))"
proof -
  have t: "(if truthy (get kvs ''text'') then get kvs ''text'' else JStr []) = JStr t"
    using assms(2) by auto
  show ?thesis
    by (subst convertJSONToHTML.simps)
      (simp add: assms(1) t template_def and_then_def tagged_def)
qed

theorem text_node_nesting_witness:
  "get [(''type'', JStr ''text''), (''text'', JStr ''hi''), (''bold'', JBool True),
        (''code'', JBool True)] ''type'' = JStr ''text''
   \<and> get [(''type'', JStr ''text''), (''text'', JStr ''hi''), (''bold'', JBool True),
          (''code'', JBool True)] ''text'' = JStr ''hi''
   \<and> convertJSONToHTML
        (JObj [(''type'', JStr ''text''), (''text'', JStr ''hi''), (''bold'', JBool True),
               (''code'', JBool True)])
       = Inr (JStr ''<code><strong>hi</strong></code>'')"
  using text_node_nesting
    [of "[(''type'', JStr ''text''), (''text'', JStr ''hi''), (''bold'', JBool True),
          (''code'', JBool True)]" "''hi''"]
  by (simp add: get_def tagged_def)

text \<open>C1 as stated fails on its own example: the result is not
  \<^verbatim>\<open><strong><code>hi</code></strong>\<close>.\<close>

theorem bold_outermost_counterexample:
  "convertJSONToHTML
     (JObj [(''type'', JStr ''text''), (''text'', JStr ''hi''), (''bold'', JBool True),
            (''code'', JBool True)])
     \<noteq> Inr (JStr ''<strong><code>hi</code></strong>'')"
  by (subst convertJSONToHTML.simps) (simp add: get_def template_def and_then_def)

text \<open>
  An object whose \<^verbatim>\<open>type\<close> is absent, null or a string that names no recognized node
  type reaches the test \<^verbatim>\<open>if (json.children)\<close>. When the children are truthy the result is
  that of rendering them alone.
\<close>

lemma unknown_object_children:
  assumes "unrecognized_type (get kvs ''type'')" and "truthy (get kvs ''children'')"
  shows "convertJSONToHTML (JObj kvs) = convertJSONToHTML (get kvs ''children'')"
proof -
  from assms(1) have h: "type_starts_with_heading (get kvs ''type'') = Inr False"
    by (auto simp: unrecognized_type_def type_starts_with_heading_def recognized_def
        split: json.splits)
  from assms(1) have n: "get kvs ''type'' \<noteq> JStr ''text''"
    "get kvs ''type'' \<noteq> JStr ''paragraph''"
    "get kvs ''type'' \<noteq> JStr ''bulleted-list''" "get kvs ''type'' \<noteq> JStr ''numbered-list''"
    "get kvs ''type'' \<noteq> JStr ''list-item''" "get kvs ''type'' \<noteq> JStr ''link''"
    "get kvs ''type'' \<noteq> JStr ''image''" "get kvs ''type'' \<noteq> JStr ''block-quote''"
    "get kvs ''type'' \<noteq> JStr ''code-block''"
    by (auto simp: unrecognized_type_def recognized_def split: json.splits)
  show ?thesis
    by (subst convertJSONToHTML.simps) (simp add: h n assms(2) and_then_def)
qed

text \<open>When the children are falsy the object is rendered as the concatenation of what all
  its property values render to, the type and the children among them.\<close>

lemma falsy_children_values:
  assumes "unrecognized_type (get kvs ''type'')" and "\<not> truthy (get kvs ''children'')"
  shows "convertJSONToHTML (JObj kvs)
           = and_then (sequence (map convertJSONToHTML (map snd kvs))) (join [])"
proof -
  from assms(1) have h: "type_starts_with_heading (get kvs ''type'') = Inr False"
    by (auto simp: unrecognized_type_def type_starts_with_heading_def recognized_def
        split: json.splits)
  from assms(1) have n: "get kvs ''type'' \<noteq> JStr ''text''"
    "get kvs ''type'' \<noteq> JStr ''paragraph''"
    "get kvs ''type'' \<noteq> JStr ''bulleted-list''" "get kvs ''type'' \<noteq> JStr ''numbered-list''"
    "get kvs ''type'' \<noteq> JStr ''list-item''" "get kvs ''type'' \<noteq> JStr ''link''"
    "get kvs ''type'' \<noteq> JStr ''image''" "get kvs ''type'' \<noteq> JStr ''block-quote''"
    "get kvs ''type'' \<noteq> JStr ''code-block''"
    by (auto simp: unrecognized_type_def recognized_def split: json.splits)
  show ?thesis
    by (subst convertJSONToHTML.simps) (simp add: h n assms(2) and_then_def)
qed

text \<open>
  C10 at objects that have a \<^verbatim>\<open>children\<close> property with a falsy value: the test for
  children is one of truthiness, not of presence, so these objects are not rendered as their
  children. \<^verbatim>\<open>render({children: "", extra: "x"})\<close> is \<^verbatim>\<open>"x"\<close> where \<^verbatim>\<open>render("")\<close> is the
  empty string, and \<^verbatim>\<open>render({type: "custom", children: null})\<close> is \<^verbatim>\<open>"custom"\<close> where
  \<^verbatim>\<open>render(null)\<close> is the empty string: the other field and the type are not dropped.
\<close>

theorem falsy_children_not_rendered_alone:
  "convertJSONToHTML (JObj [(''children'', JStr ''''), (''extra'', JStr ''x'')]) = Inr (JStr ''x'')
   \<and> convertJSONToHTML (JStr '''') = Inr (JStr '''')
   \<and> convertJSONToHTML (JObj [(''type'', JStr ''custom''), (''children'', JNull)])
       = Inr (JStr ''custom'')
   \<and> convertJSONToHTML JNull = Inr (JStr '''')"
  by code_simp

text \<open>
  C8 at a malformed object: \<^verbatim>\<open>render({type: 5})\<close> raises a TypeError, since the optional
  chain before \<^verbatim>\<open>startsWith\<close> only guards a nullish type; the three results that the claim
  names do hold.
\<close>

theorem non_string_type_throws:
  "convertJSONToHTML (JObj [(''type'', JNum (Number ''5''))]) = Inl TypeError
   \<and> convertJSONToHTML JNull = Inr (JStr '''')
   \<and> convertJSONToHTML JUndefined = Inr (JStr '''')
   \<and> convertJSONToHTML (JStr '''') = Inr (JStr '''')"
  by code_simp

subsection \<open>Where the function is total\<close>

text \<open>
  The TypeError above has two sources only: a \<^verbatim>\<open>type\<close> that is neither a string nor
  nullish, and the conversion to a string of an object with an own \<^verbatim>\<open>toString\<close> property.
  On every value free of both, at any depth, the function returns.
\<close>

lemma returns_Inr: "plain v \<Longrightarrow> returns_plain (Inr v)"
  by (simp add: returns_plain_def)

lemma returns_if:
  "returns_plain a \<Longrightarrow> returns_plain b \<Longrightarrow> returns_plain (if c then a else b)"
  by simp

lemma returns_bind:
  "returns_plain m \<Longrightarrow> (\<And>c. plain c \<Longrightarrow> returns_plain (f c)) \<Longrightarrow> returns_plain (and_then m f)"
  by (cases m) (simp_all add: returns_plain_def and_then_def)

lemma sequence_Inr:
  "(\<And>x. x \<in> set xs \<Longrightarrow> \<exists>v. f x = Inr v \<and> P v)
     \<Longrightarrow> \<exists>vs. sequence (map f xs) = Inr vs \<and> list_all P vs"
proof (induction xs)
  case Nil
  show ?case by simp
next
  case (Cons x xs)
  from Cons.prems obtain v where v: "f x = Inr v" "P v" by auto
  from Cons obtain vs where "sequence (map f xs) = Inr vs" "list_all P vs" by auto
  with v show ?case by (simp add: and_then_def)
qed

lemma to_string_plain: "plain v \<Longrightarrow> \<exists>s. to_string v = Inr s"
proof (induction v rule: to_string.induct)
  case (6 xs)
  have "\<exists>vs. sequence (map (\<lambda>x. if x = JUndefined \<or> x = JNull then Inr [] else to_string x) xs)
             = Inr vs \<and> list_all (\<lambda>_. True) vs"
  proof (rule sequence_Inr)
    fix x assume x: "x \<in> set xs"
    with "6.prems" have "plain x" by (simp add: list_all_iff)
    with "6.IH" x
    show "\<exists>v. (if x = JUndefined \<or> x = JNull then Inr [] else to_string x) = Inr v \<and> True"
      by auto
  qed
  then show ?case by (auto simp: and_then_def)
qed simp_all

lemma returns_to_string:
  "plain v \<Longrightarrow> (\<And>s. returns_plain (f s)) \<Longrightarrow> returns_plain (and_then (to_string v) f)"
  using to_string_plain [of v] by (auto simp: and_then_def)

lemma returns_template: "plain v \<Longrightarrow> returns_plain (template pre v post)"
  unfolding template_def by (rule returns_to_string) (simp_all add: returns_plain_def)

lemma returns_join: "list_all plain vs \<Longrightarrow> returns_plain (join sep vs)"
proof -
  assume a: "list_all plain vs"
  have "\<exists>ss. sequence (map (\<lambda>x. if x = JUndefined \<or> x = JNull then Inr [] else to_string x) vs)
             = Inr ss \<and> list_all (\<lambda>_. True) ss"
  proof (rule sequence_Inr)
    fix x assume "x \<in> set vs"
    with a have "plain x" by (simp add: list_all_iff)
    from to_string_plain [OF this]
    show "\<exists>v. (if x = JUndefined \<or> x = JNull then Inr [] else to_string x) = Inr v \<and> True"
      by auto
  qed
  then show ?thesis by (auto simp: join_def and_then_def returns_plain_def)
qed

lemma returns_all:
  assumes "\<And>x. x \<in> set xs \<Longrightarrow> returns_plain (f x)"
  shows "returns_plain (and_then (sequence (map f xs)) (join sep))"
proof -
  have "\<exists>vs. sequence (map f xs) = Inr vs \<and> list_all plain vs"
  proof (rule sequence_Inr)
    fix x assume "x \<in> set xs"
    from assms [OF this] show "\<exists>v. f x = Inr v \<and> plain v"
      by (cases "f x") (simp_all add: returns_plain_def)
  qed
  then obtain vs where "sequence (map f xs) = Inr vs" "list_all plain vs" by blast
  with returns_join [of vs sep] show ?thesis by (simp add: and_then_def)
qed

lemma plain_get: "list_all plain (map snd kvs) \<Longrightarrow> plain (get kvs k)"
proof (cases "map_of kvs k")
  case None
  then show ?thesis by (simp add: get_def)
next
  case (Some v)
  assume a: "list_all plain (map snd kvs)"
  from Some have "(k, v) \<in> set kvs" by (rule map_of_SomeD)
  with a have "plain v" by (auto simp: list_all_iff)
  with Some show ?thesis by (simp add: get_def)
qed

lemma plain_at_index: "plain (at_index xs i)"
  by (simp add: at_index_def)

text \<open>Every such value is rendered without an exception.\<close>

lemma render_total_on_plain: "plain v \<Longrightarrow> returns_plain (convertJSONToHTML v)"
proof (induction v rule: json.induct)
  case JUndefined
  show ?case by (simp add: render_falsy returns_plain_def)
next
  case JNull
  show ?case by (simp add: render_falsy returns_plain_def)
next
  case (JBool b)
  show ?case by (simp add: convertJSONToHTML.simps [of "JBool b"] returns_plain_def)
next
  case (JNum n)
  show ?case by (simp add: convertJSONToHTML.simps [of "JNum n"] returns_plain_def)
next
  case (JStr s)
  show ?case by (simp add: render_JStr returns_plain_def)
next
  case (JArr xs)
  have "returns_plain (and_then (sequence (map convertJSONToHTML xs)) (join []))"
  proof (rule returns_all)
    fix x assume x: "x \<in> set xs"
    with JArr.prems have "plain x" by (simp add: list_all_iff)
    with JArr.IH x show "returns_plain (convertJSONToHTML x)" by blast
  qed
  then show ?case by (simp add: render_JArr)
next
  case (JObj kvs)
  from JObj.prems have ty: "string_or_nullish (get kvs ''type'')"
    and pl: "list_all plain (map snd kvs)" by simp_all
  have g: "\<And>k. plain (get kvs k)" using pl by (rule plain_get)
  have gt: "\<And>k. plain (if truthy (get kvs k) then get kvs k else JStr [])" using g by simp
  have ih: "\<And>k. returns_plain (convertJSONToHTML (get kvs k))"
  proof -
    fix k
    show "returns_plain (convertJSONToHTML (get kvs k))"
    proof (cases "map_of kvs k")
      case None
      then show ?thesis by (simp add: get_def render_falsy returns_plain_def)
    next
      case (Some v)
      then have "(k, v) \<in> set kvs" by (rule map_of_SomeD)
      then have "plain v \<Longrightarrow> returns_plain (convertJSONToHTML v)"
        using JObj.IH by force
      with g [of k] Some show ?thesis by (simp add: get_def)
    qed
  qed
  have vals: "returns_plain (and_then (sequence (map convertJSONToHTML (map snd kvs))) (join []))"
  proof (rule returns_all)
    fix x assume x: "x \<in> set (map snd kvs)"
    with pl have p: "plain x" by (auto simp: list_all_iff)
    from x obtain k where "(k, x) \<in> set kvs" by auto
    then have "plain x \<Longrightarrow> returns_plain (convertJSONToHTML x)"
      using JObj.IH by force
    with p show "returns_plain (convertJSONToHTML x)" by blast
  qed
  from ty obtain h where h: "type_starts_with_heading (get kvs ''type'') = Inr h"
    by (auto simp: string_or_nullish_def type_starts_with_heading_def split: json.splits)
  show ?case
    apply (subst convertJSONToHTML.simps)
    apply (simp only: truthy.simps not_True_eq_False if_False json.case h
        and_then_def [of "Inr h"] sum.case Let_def)
    apply (intro returns_if returns_to_string returns_bind returns_template returns_Inr
        g gt ih vals plain_at_index)
    apply assumption+
    done
qed

section \<open>Properties of createAIJsonContent\<close>

text \<open>
  C6: the sign-off example. For the text made of the line \<^verbatim>\<open>Hello there.\<close>, a blank
  line, and the lines \<^verbatim>\<open>Best regards,\<close> and \<^verbatim>\<open>Jane Doe\<close>, the result
  is a document of exactly four nodes: a paragraph with the text \<^verbatim>\<open>Hello there.\<close>, an
  empty paragraph, a paragraph with \<^verbatim>\<open>Best regards,\<close> and a paragraph with
  \<^verbatim>\<open>Jane Doe\<close>.
\<close>

theorem worked_example:
  "createAIJsonContent ''Hello there.\<newline>\<newline>Best regards,\<newline>Jane Doe'' =
     JObj [(''type'', JStr ''doc''),
           (''content'',
            JArr [JObj [(''type'', JStr ''paragraph''),
                        (''content'', JArr [JObj [(''type'', JStr ''text''), (''text'', JStr ''Hello there.'')]])],
                  JObj [(''type'', JStr ''paragraph'')],
                  JObj [(''type'', JStr ''paragraph''),
                        (''content'', JArr [JObj [(''type'', JStr ''text''), (''text'', JStr ''Best regards,'')]])],
                  JObj [(''type'', JStr ''paragraph''),
                        (''content'', JArr [JObj [(''type'', JStr ''text''), (''text'', JStr ''Jane Doe'')]])]])]"
  by code_simp

lemma build_single: "build_content [t] [] = [paragraph_node t]"
  by (simp add: build_content_def)

lemma backfill:
  assumes "split_paragraphs (fst (split_signature text)) = []" and "snd (split_signature text) = []"
  shows "createAIJsonContent text = single_paragraph_doc text"
proof -
  obtain mc sl where s: "split_signature text = (mc, sl)" by (cases "split_signature text")
  with assms have "split_paragraphs mc = []" "sl = []" by simp_all
  with s show ?thesis
    by (simp add: createAIJsonContent_def build_single paragraph_node_def single_paragraph_doc_def)
qed

lemma empty_text_split:
  "split_paragraphs (fst (split_signature '''')) = [] \<and> snd (split_signature '''') = []"
  by code_simp

text \<open>
  C7: when the main body splits into no paragraph and no signature was detected, the
  result is the document with the raw text as its single paragraph; in particular this is
  the result for the empty string.
\<close>

theorem raw_text_single_paragraph:
  "(split_paragraphs (fst (split_signature text)) = [] \<and> snd (split_signature text) = []
      \<longrightarrow> createAIJsonContent text = single_paragraph_doc text)
   \<and> createAIJsonContent '''' = single_paragraph_doc ''''"
  using backfill [of "text"] backfill [of "''''"] empty_text_split by blast

theorem raw_text_single_paragraph_witness:
  "split_paragraphs (fst (split_signature ''   '')) = [] \<and> snd (split_signature ''   '') = []
   \<and> createAIJsonContent ''   '' = single_paragraph_doc ''   ''"
proof -
  have h: "split_paragraphs (fst (split_signature ''   '')) = [] \<and> snd (split_signature ''   '') = []"
    by code_simp
  with raw_text_single_paragraph [of "''   ''"] show ?thesis by blast
qed

text \<open>
  C3 at a text of three lines of which only the middle one qualifies: no sign-off matches,
  the fallback pass takes \<^verbatim>\<open>Alice\<close> as the signature and the first two lines, \<^verbatim>\<open>Alice\<close>
  among them, as the main body, and the last line \<^verbatim>\<open>See you tomorrow.\<close> is in neither.
  The qualifying lines are filtered out of the last three, while the body is cut as if they
  were the last lines.
\<close>

theorem fallback_drops_line:
  "js_split newlines ''Dear team, the report is attached.\<newline>Alice\<newline>See you tomorrow.''
     = [''Dear team, the report is attached.'', ''Alice'', ''See you tomorrow.'']
   \<and> regex_match True (hd signOffPatterns)
        ''Dear team, the report is attached.\<newline>Alice\<newline>See you tomorrow.'' = None
   \<and> split_signature ''Dear team, the report is attached.\<newline>Alice\<newline>See you tomorrow.''
     = (''Dear team, the report is attached.\<newline>Alice'', [''Alice''])
   \<and> createAIJsonContent ''Dear team, the report is attached.\<newline>Alice\<newline>See you tomorrow.''
     = JObj [(''type'', JStr ''doc''),
             (''content'',
              JArr [paragraph_node ''Dear team, the report is attached.\<newline>Alice'',
                    empty_paragraph,
                    paragraph_node ''Alice''])]"
  by code_simp

text \<open>The sign-off pattern ends with \<^verbatim>\<open>$\<close>: each of its matches reaches the end of the text.\<close>

lemma end_anchor_ends: "st' \<in> set (rmatch ic EndAnchor st) \<Longrightarrow> snd st' = []"
  by (simp split: if_splits)

lemma cat_ends:
  assumes "\<And>st st'. st' \<in> set (rmatch ic r2 st) \<Longrightarrow> snd st' = []"
    and "st' \<in> set (rmatch ic (Cat r1 r2) st)"
  shows "snd st' = []"
proof -
  from assms(2) obtain m where "st' \<in> set (rmatch ic r2 m)" by auto
  then show ?thesis by (rule assms(1))
qed

lemma seq_ends:
  "rs \<noteq> [] \<Longrightarrow> last rs = EndAnchor \<Longrightarrow> st' \<in> set (rmatch ic (seq rs) st) \<Longrightarrow> snd st' = []"
proof (induction rs arbitrary: st st' rule: seq.induct)
  case 1
  then show ?case by simp
next
  case (2 r)
  then show ?case by (simp split: if_splits)
next
  case (3 r r' rs)
  have "\<And>st st'. st' \<in> set (rmatch ic (seq (r' # rs)) st) \<Longrightarrow> snd st' = []"
    using "3.IH" "3.prems"(2) by simp
  moreover from "3.prems"(3) have "st' \<in> set (rmatch ic (Cat r (seq (r' # rs))) st)" by simp
  ultimately show ?case by (rule cat_ends)
qed

lemma sign_off_ends: "st' \<in> set (rmatch ic (hd signOffPatterns) st) \<Longrightarrow> snd st' = []"
  unfolding signOffPatterns_def list.sel
  by (erule seq_ends [rotated 2]) simp_all

lemma exec_from_index: "exec_from ic r pre rest = Some (i, m) \<Longrightarrow> length pre \<le> i"
proof (induction rest arbitrary: pre)
  case Nil
  then show ?case by (simp split: list.splits)
next
  case (Cons c cs)
  show ?case
  proof (cases "rmatch ic r (pre, c # cs)")
    case Nil
    with Cons.prems have "exec_from ic r (c # pre) cs = Some (i, m)" by simp
    from Cons.IH [OF this] show ?thesis by simp
  next
    case (Cons st sts)
    with Cons.prems show ?thesis by simp
  qed
qed

lemma exec_from_whole:
  assumes "exec_from ic r [] text = Some (0, m)"
    and "\<And>st'. st' \<in> set (rmatch ic r ([], text)) \<Longrightarrow> snd st' = []"
  shows "m = text"
proof (cases "text")
  case Nil
  with assms(1) show ?thesis by (simp split: list.splits)
next
  case (Cons c cs)
  show ?thesis
  proof (cases "rmatch ic r ([], text)")
    case Nil
    with Cons assms(1) have "exec_from ic r [c] cs = Some (0, m)" by simp
    from exec_from_index [OF this] show ?thesis by simp
  next
    case (Cons st sts)
    then have "snd st = []" using assms(2) by simp
    with Cons \<open>text = c # cs\<close> assms(1) show ?thesis by simp
  qed
qed

lemma lastIndexOf_self: "lastIndexOf s s = 0"
  by (simp add: lastIndexOf_def)

text \<open>
  C4: when the sign-off pattern matches from index 0, the pattern pass sets no signature and
  leaves the whole text as main body, and the fallback pass runs on it.
\<close>

theorem sign_off_at_start_not_honored:
  assumes "regex_match True (hd signOffPatterns) text = Some (0, m)"
  shows "sign_off_loop signOffPatterns text (text, []) = (text, [])
         \<and> split_signature text = fallback text (text, [])"
proof -
  have one: "signOffPatterns = [hd signOffPatterns]" by (simp add: signOffPatterns_def)
  have "m = text"
    using assms sign_off_ends unfolding regex_match_def by (rule exec_from_whole)
  with assms have "sign_off_loop [hd signOffPatterns] text (text, []) = (text, [])"
    by (simp add: lastIndexOf_self)
  with one have l: "sign_off_loop signOffPatterns text (text, []) = (text, [])" by simp
  then show ?thesis by (simp add: split_signature_def)
qed

theorem sign_off_at_start_not_honored_witness:
  "regex_match True (hd signOffPatterns) ''Thanks,\<newline>Bob'' = Some (0, ''Thanks,\<newline>Bob'')
   \<and> sign_off_loop signOffPatterns ''Thanks,\<newline>Bob'' (''Thanks,\<newline>Bob'', [])
       = (''Thanks,\<newline>Bob'', [])
   \<and> split_signature ''Thanks,\<newline>Bob'' = fallback ''Thanks,\<newline>Bob'' (''Thanks,\<newline>Bob'', [])"
proof -
  have h: "regex_match True (hd signOffPatterns) ''Thanks,\<newline>Bob'' = Some (0, ''Thanks,\<newline>Bob'')"
    by code_simp
  from sign_off_at_start_not_honored [OF h] h show ?thesis by blast
qed

section \<open>Rendering the result of createAIJsonContent\<close>

lemma balanced_examples:
  "balanced_tags ''<p>a<strong>b</strong></p><img src=x />''"
  "\<not> balanced_tags ''<p>a''"
  "\<not> balanced_tags ''<p><em>a</p></em>''"
  "\<not> balanced_tags ''a</p>''"
  by code_simp+

lemma render_paragraph_node: "convertJSONToHTML (paragraph_node t) = Inr (JStr ''<p></p>'')"
  by (subst convertJSONToHTML.simps)
    (simp add: paragraph_node_def get_def render_falsy and_then_def template_def)

lemma render_empty_paragraph: "convertJSONToHTML empty_paragraph = Inr (JStr ''<p></p>'')"
  by (subst convertJSONToHTML.simps)
    (simp add: empty_paragraph_def get_def render_falsy and_then_def template_def)

lemma sequence_all:
  "(\<And>x. x \<in> set xs \<Longrightarrow> f x = Inr v) \<Longrightarrow> sequence (map f xs) = Inr (replicate (length xs) v)"
  by (induction xs) (simp_all add: and_then_def)

lemma intercalate_empty: "intercalate [] ss = concat ss"
  by (induction "[] :: string" ss rule: intercalate.induct) simp_all

lemma join_strings: "join [] (replicate n (JStr s)) = Inr (JStr (concat (replicate n s)))"
proof -
  have "sequence (map (\<lambda>x. if x = JUndefined \<or> x = JNull then Inr [] else to_string x)
          (replicate n (JStr s))) = Inr (replicate (length (replicate n (JStr s))) s)"
    by (rule sequence_all) simp
  then show ?thesis by (simp add: join_def and_then_def intercalate_empty)
qed

lemma render_paragraphs:
  assumes "\<And>x. x \<in> set xs \<Longrightarrow> convertJSONToHTML x = Inr (JStr ''<p></p>'')"
  shows "convertJSONToHTML (JArr xs) = Inr (JStr (concat (replicate (length xs) ''<p></p>'')))"
proof -
  have "sequence (map convertJSONToHTML xs) = Inr (replicate (length xs) (JStr ''<p></p>''))"
    using assms by (rule sequence_all)
  then show ?thesis by (simp add: render_JArr and_then_def join_strings)
qed

lemma render_doc:
  assumes "convertJSONToHTML (JArr xs) = Inr (JStr h)"
  shows "convertJSONToHTML (JObj [(''type'', JStr ''doc''), (''content'', JArr xs)])
           = Inr (JStr (''doc'' @ h))"
  by (subst convertJSONToHTML.simps)
    (simp add: get_def type_starts_with_heading_def starts_with_def and_then_def assms
      render_JStr join_def)

lemma build_content_nodes:
  "x \<in> set (build_content ps sl) \<Longrightarrow> convertJSONToHTML x = Inr (JStr ''<p></p>'')"
  by (auto simp: build_content_def render_paragraph_node render_empty_paragraph
      split: if_splits)

lemma build_content_nonempty: "ps \<noteq> [] \<or> sl \<noteq> [] \<Longrightarrow> build_content ps sl \<noteq> []"
  by (cases ps) (auto simp: build_content_def)

lemma createAIJsonContent_shape:
  "\<exists>content. content \<noteq> [] \<and> (\<forall>x\<in>set content. convertJSONToHTML x = Inr (JStr ''<p></p>''))
     \<and> createAIJsonContent t = JObj [(''type'', JStr ''doc''), (''content'', JArr content)]"
proof -
  obtain mc sl where s: "split_signature t = (mc, sl)" by (cases "split_signature t")
  define ps where "ps = (if length (split_paragraphs mc) = 0 \<and> length sl = 0
                        then split_paragraphs mc @ [t] else split_paragraphs mc)"
  have c: "createAIJsonContent t = JObj [(''type'', JStr ''doc''), (''content'', JArr (build_content ps sl))]"
    by (simp add: createAIJsonContent_def s ps_def Let_def)
  have "ps \<noteq> [] \<or> sl \<noteq> []" by (auto simp: ps_def)
  then have "build_content ps sl \<noteq> []" by (rule build_content_nonempty)
  with c show ?thesis using build_content_nodes by blast
qed

text \<open>
  C2, as the code has it: rendering the document made from any text gives the string
  \<^verbatim>\<open>doc\<close> (the value of the document's \<^verbatim>\<open>type\<close>) followed by one \<^verbatim>\<open><p></p>\<close> for
  each node of its content, of which there is at least one. No paragraph text is rendered:
  the nodes keep it under \<^verbatim>\<open>content\<close>, and a paragraph is rendered from \<^verbatim>\<open>children\<close>.
\<close>

theorem rendered_split_is_doc_and_empty_paragraphs:
  "convertJSONToHTML (createAIJsonContent t)
     = Inr (JStr (''doc'' @ concat (replicate (node_count (createAIJsonContent t)) ''<p></p>'')))
   \<and> 0 < node_count (createAIJsonContent t)"
proof -
  from createAIJsonContent_shape [of t] obtain content where
    n: "content \<noteq> []" and p: "\<And>x. x \<in> set content \<Longrightarrow> convertJSONToHTML x = Inr (JStr ''<p></p>'')"
    and c: "createAIJsonContent t = JObj [(''type'', JStr ''doc''), (''content'', JArr content)]"
    by blast
  have k: "node_count (createAIJsonContent t) = length content"
    by (simp add: c node_count_def get_def)
  from render_paragraphs [OF p] have "convertJSONToHTML (createAIJsonContent t)
     = Inr (JStr (''doc'' @ concat (replicate (length content) ''<p></p>'')))"
    unfolding c by (rule render_doc)
  with k n show ?thesis by simp
qed

text \<open>C2 as stated fails: for the empty string the result is \<^verbatim>\<open>doc<p></p>\<close>, which is
  not a run of empty paragraphs.\<close>

theorem doc_prefix_counterexample:
  "convertJSONToHTML (createAIJsonContent '''') = Inr (JStr ''doc<p></p>'')
   \<and> \<not> only_empty_paragraphs ''doc<p></p>''"
  by code_simp

lemma scan_paragraph: "scan stack InText (''<p></p>'' @ rest) = scan stack InText rest"
  by (simp add: tag_step_def starts_with_def ends_with_def known_tag_def tag_name_def)

lemma scan_paragraphs: "scan stack InText (concat (replicate n ''<p></p>'')) = (stack = [])"
proof (induction n)
  case 0
  show ?case by simp
next
  case (Suc n)
  have "scan stack InText (concat (replicate (Suc n) ''<p></p>''))
      = scan stack InText (''<p></p>'' @ concat (replicate n ''<p></p>''))"
    by simp
  also have "\<dots> = scan stack InText (concat (replicate n ''<p></p>''))"
    by (rule scan_paragraph)
  finally show ?case using Suc by simp
qed

lemma balanced_doc: "balanced_tags (''doc'' @ concat (replicate n ''<p></p>''))"
  using scan_paragraphs [of "[]" n] by (simp add: balanced_tags_def)

text \<open>
  C9: for every text, rendering the document made from it raises nothing and gives a string
  whose tags are balanced.
\<close>

theorem rendered_split_well_formed:
  "well_formed_html (convertJSONToHTML (createAIJsonContent t))"
proof -
  from createAIJsonContent_shape [of t] obtain content where
    p: "\<And>x. x \<in> set content \<Longrightarrow> convertJSONToHTML x = Inr (JStr ''<p></p>'')"
    and c: "createAIJsonContent t = JObj [(''type'', JStr ''doc''), (''content'', JArr content)]"
    by blast
  from render_paragraphs [OF p] have "convertJSONToHTML (createAIJsonContent t)
     = Inr (JStr (''doc'' @ concat (replicate (length content) ''<p></p>'')))"
    unfolding c by (rule render_doc)
  then show ?thesis using balanced_doc [of "length content"] by (simp add: well_formed_html_def)
qed

end
